theory Spec2Isabelle
  imports Main "HOL-Library.Word"
begin

section \<open>Python values used by the node\<close>

text \<open>
  Identifiers, host names and topic filters are only compared and concatenated by the
  node, so they are HOL strings. The text handed to \<open>shorten_data\<close> is measured
  with \<open>len\<close>, which counts code points, so that text is a list of code points.
\<close>

type_synonym codepoint = nat
type_synonym str = "codepoint list"
type_synonym byte = "8 word"

text \<open>
  \<open>str.isspace\<close> on one code point, as \<open>str.strip()\<close> with no argument uses it:
  the characters of bidirectional type WS, B or S and of category Zs.
\<close>

definition isspace :: "codepoint \<Rightarrow> bool" where
  "isspace c \<longleftrightarrow>
     (9 \<le> c \<and> c \<le> 13) \<or> (28 \<le> c \<and> c \<le> 32) \<or> c = 133 \<or> c = 160 \<or> c = 5760 \<or>
     (8192 \<le> c \<and> c \<le> 8202) \<or> c = 8232 \<or> c = 8233 \<or> c = 8239 \<or> c = 8287 \<or> c = 12288"

definition strip :: "str \<Rightarrow> str" where
  "strip s = rev (dropWhile isspace (rev (dropWhile isspace s)))"

text \<open>The slice \<open>data[:n]\<close>: a negative \<open>n\<close> counts from the end.\<close>

definition slice_to :: "int \<Rightarrow> 'a list \<Rightarrow> 'a list" where
  "slice_to n xs = (if 0 \<le> n then take (nat n) xs else take (length xs - nat (- n)) xs)"

text \<open>
  The argument of \<open>shorten_data\<close>: a \<open>str\<close>, or any other value, which carries the
  text that \<open>str(data)\<close> renders for it.
\<close>

datatype data = PyStr str | PyObj str

definition ellipsis :: str where
  "ellipsis = [46, 46, 46]"

definition shorten_data :: "data \<Rightarrow> int \<Rightarrow> str" where
  "shorten_data data max_length =
     (let data1 = (case data of PyStr s \<Rightarrow> s | PyObj r \<Rightarrow> r);
          data2 = strip data1
      in if int (length data2) > max_length then slice_to max_length data2 @ ellipsis
         else data2)"

section \<open>Decoding a payload\<close>

text \<open>
  \<open>message.payload.decode()\<close> is \<open>bytes.decode('utf-8', 'strict')\<close>: it returns the
  code points of a well-formed UTF-8 sequence and raises \<open>UnicodeDecodeError\<close> on
  anything else (a stray or missing continuation byte, an overlong form, a surrogate, a
  value above U+10FFFF). \<open>None\<close> is the raise.
\<close>

definition continuation :: "byte \<Rightarrow> bool" where
  "continuation b \<longleftrightarrow> 0x80 \<le> b \<and> b \<le> 0xBF"

definition second_ok :: "byte \<Rightarrow> byte \<Rightarrow> bool" where
  "second_ok b b1 \<longleftrightarrow>
     (if b = 0xE0 then 0xA0 \<le> b1 \<and> b1 \<le> 0xBF
      else if b = 0xED then 0x80 \<le> b1 \<and> b1 \<le> 0x9F
      else if b = 0xF0 then 0x90 \<le> b1 \<and> b1 \<le> 0xBF
      else if b = 0xF4 then 0x80 \<le> b1 \<and> b1 \<le> 0x8F
      else continuation b1)"

definition low6 :: "byte \<Rightarrow> nat" where
  "low6 b = unat b mod 64"

fun decode :: "byte list \<Rightarrow> str option" where
  "decode [] = Some []"
| "decode (b # bs) =
     (if b < 0x80 then map_option ((#) (unat b)) (decode bs)
      else if 0xC2 \<le> b \<and> b \<le> 0xDF then
        (case bs of
           b1 # r \<Rightarrow>
             if continuation b1
             then map_option ((#) (unat b mod 32 * 64 + low6 b1)) (decode r)
             else None
         | _ \<Rightarrow> None)
      else if 0xE0 \<le> b \<and> b \<le> 0xEF then
        (case bs of
           b1 # b2 # r \<Rightarrow>
             if second_ok b b1 \<and> continuation b2
             then map_option ((#) (unat b mod 16 * 4096 + low6 b1 * 64 + low6 b2)) (decode r)
             else None
         | _ \<Rightarrow> None)
      else if 0xF0 \<le> b \<and> b \<le> 0xF4 then
        (case bs of
           b1 # b2 # b3 # r \<Rightarrow>
             if second_ok b b1 \<and> continuation b2 \<and> continuation b3
             then map_option
                    ((#) (unat b mod 8 * 262144 + low6 b1 * 4096 + low6 b2 * 64 + low6 b3))
                    (decode r)
             else None
         | _ \<Rightarrow> None)
      else None)"

section \<open>Topics, transport calls and log records\<close>

datatype error = AssertionError | AttributeError | ValueError | UnicodeDecodeError | OSError

text \<open>
  The second component of a topic tuple is a plain QoS number or a
  \<open>mqtt.SubscribeOptions\<close> object. That class defines no \<open>__eq__\<close>, so two of its
  objects are equal only when they are the same object: an object carries its identity,
  and HOL equality on topics is then Python's \<open>==\<close>.
\<close>

datatype options = QoS int | SubscribeOptions (oid: nat) (opt_qos: int)

text \<open>
  A topic argument: a \<open>str\<close>, a tuple of a filter and its options, or a value that
  is neither (known by its identity).
\<close>

datatype topic = Str string | Tuple string options | Other nat

fun is_tuple :: "topic \<Rightarrow> bool" where
  "is_tuple (Tuple f opts) = True"
| "is_tuple t = False"

text \<open>What \<open>subscribe\<close> takes without an assertion failure: a \<open>str\<close> or a tuple.\<close>

fun subscribable :: "topic \<Rightarrow> bool" where
  "subscribable (Other n) = False"
| "subscribable t = True"

datatype filters = Filter string | Filters "string list"

text \<open>What the node does to the outside: calls on the transport client, and sleeps.\<close>

datatype call =
    Subscribe topic
  | Unsubscribe filters
  | Publish string "byte list" int bool
  | Reconnect
  | Sleep int

datatype log_record =
    SubscribeFailed topic nat
  | Subscribed topic
  | ReconnectFailed string int
  | RetryAttempt int int
  | Connected string int
  | Received string str int
  | Published nat

section \<open>The transport, as the node sees it\<close>

text \<open>
  The broker client is an external library. Its answers are parameters: the result code
  of the subscribe call made when \<open>k\<close> calls have gone before, what the \<open>k\<close>-th
  \<open>reconnect()\<close> does, and what \<open>is_connected()\<close> says once the sleep after that
  attempt is over. A subscribe, unsubscribe or publish call on the client is taken to
  return: the exceptions with which the library rejects a malformed argument are not
  part of the model. \<open>reconnect()\<close> returns, raises \<open>ConnectionRefusedError\<close>,
  or fails with another exception.
\<close>

datatype reconnect_result = Returns | Refused | Fails

record transport =
  subscribe_rc :: "nat \<Rightarrow> topic \<Rightarrow> nat"
  reconnect_result :: "nat \<Rightarrow> reconnect_result"
  connected_after :: "nat \<Rightarrow> bool"

section \<open>State\<close>

type_synonym labels = "string \<times> string \<times> string \<times> string"

text \<open>
  What all nodes of a process share: the class attribute \<open>_ids\<close>
  (\<open>itertools.count()\<close>, the next value it yields), the four class-level counters,
  the module's logger, and the next free object identity.
\<close>

record process =
  ids :: nat
  next_oid :: nat
  log :: "log_record list"
  node_bytes_received_count :: "labels \<Rightarrow> nat"
  node_bytes_sent_count :: "labels \<Rightarrow> nat"
  node_messages_received_count :: "labels \<Rightarrow> nat"
  node_messages_sent_count :: "labels \<Rightarrow> nat"

definition process0 :: process where
  "process0 = \<lparr>ids = 0, next_oid = 0, log = [],
     node_bytes_received_count = (\<lambda>l. 0), node_bytes_sent_count = (\<lambda>l. 0),
     node_messages_received_count = (\<lambda>l. 0), node_messages_sent_count = (\<lambda>l. 0)\<rparr>"

text \<open>
  One node in its process: the attributes \<open>__init__\<close> sets, and the client it owns
  (\<open>connected\<close> is what \<open>is_connected()\<close> returns, \<open>calls\<close> the calls made so
  far, oldest first, \<open>attempts\<close> the number of \<open>reconnect()\<close> calls so far).
\<close>

record state = process +
  name :: "string option"
  node_id :: string
  node_type :: string
  client_id :: string
  subscriptions :: "topic list"
  hostname :: string
  port :: int
  keepalive :: int
  timeout :: int
  reconnect_attempts :: int
  connected :: bool
  calls :: "call list"
  attempts :: nat

record MQTTBrokerConfig =
  username :: string
  password :: string
  cfg_keepalive :: int
  cfg_hostname :: string
  cfg_port :: int
  cfg_timeout :: int
  cfg_reconnect_attempts :: int

text \<open>A call returns, or raises; either way it leaves a state behind.\<close>

datatype outcome = Return state | Raise error state

section \<open>Identity\<close>

fun str_of_nat :: "nat \<Rightarrow> string" where
  "str_of_nat n =
     (if n < 10 then [char_of (48 + n)]
      else str_of_nat (n div 10) @ [char_of (48 + n mod 10)])"

text \<open>
  The class of the object under construction: its \<open>__name__\<close>, and the class
  attribute \<open>node_type\<close> when the class (a subclass) defines one. \<open>MQTTNode\<close> itself
  defines none.
\<close>

record pyclass =
  class_name :: string
  class_node_type :: "string option"

definition MQTTNode :: pyclass where
  "MQTTNode = \<lparr>class_name = ''MQTTNode'', class_node_type = None\<rparr>"

text \<open>
  \<open>_get_id\<close> formats \<open>self.node_type\<close> first and draws from \<open>_ids\<close> second. Its
  first argument is what the lookup of \<open>self.node_type\<close> finds at the time of the call;
  finding nothing raises \<open>AttributeError\<close> before the counter is touched.
\<close>

definition get_id :: "string option \<Rightarrow> nat \<Rightarrow> error + string \<times> nat" where
  "get_id self_node_type n =
     (case self_node_type of
        None \<Rightarrow> Inl AttributeError
      | Some t \<Rightarrow> Inr (t @ ''_'' @ str_of_nat n, Suc n))"

datatype init_outcome = Created state | InitRaise error process

text \<open>
  \<open>__init__\<close>. Line 120 calls \<open>_get_id\<close> before line 121 assigns \<open>self.node_type\<close>,
  so the lookup there can only find a class attribute.
\<close>

definition init ::
  "pyclass \<Rightarrow> MQTTBrokerConfig \<Rightarrow> string option \<Rightarrow> string \<Rightarrow> string option \<Rightarrow>
   topic list option \<Rightarrow> process \<Rightarrow> init_outcome" where
  "init cls broker_config name0 node_id0 node_type0 subscriptions0 p =
     (case (if node_id0 \<noteq> [] then Inr (node_id0, ids p)
            else get_id (class_node_type cls) (ids p)) of
        Inl e \<Rightarrow> InitRaise e p
      | Inr (nid, n) \<Rightarrow>
          Created \<lparr>ids = n, next_oid = next_oid p, log = log p,
            node_bytes_received_count = node_bytes_received_count p,
            node_bytes_sent_count = node_bytes_sent_count p,
            node_messages_received_count = node_messages_received_count p,
            node_messages_sent_count = node_messages_sent_count p,
            name = name0,
            node_id = nid,
            node_type = (case node_type0 of
                           None \<Rightarrow> class_name cls
                         | Some t \<Rightarrow> if t \<noteq> [] then t else class_name cls),
            client_id = node_id0,
            subscriptions = (case subscriptions0 of None \<Rightarrow> [] | Some l \<Rightarrow> l),
            hostname = cfg_hostname broker_config,
            port = cfg_port broker_config,
            keepalive = cfg_keepalive broker_config,
            timeout = cfg_timeout broker_config,
            reconnect_attempts = cfg_reconnect_attempts broker_config,
            connected = False, calls = [], attempts = 0\<rparr>)"

section \<open>Subscriptions\<close>

text \<open>
  \<open>mqtt.SubscribeOptions(qos)\<close> makes a new object, and raises when the QoS is not
  0, 1 or 2.
\<close>

definition new_SubscribeOptions :: "int \<Rightarrow> state \<Rightarrow> error + options \<times> state" where
  "new_SubscribeOptions qos st =
     (if qos \<in> {0, 1, 2}
      then Inr (SubscribeOptions (next_oid st) qos, st\<lparr>next_oid := Suc (next_oid st)\<rparr>)
      else Inl AssertionError)"

definition add_subscription_topic :: "topic \<Rightarrow> int \<Rightarrow> state \<Rightarrow> outcome" where
  "add_subscription_topic topic qos st =
     (case (case topic of
              Str s \<Rightarrow>
                (case new_SubscribeOptions qos st of
                   Inl e \<Rightarrow> Inl e
                 | Inr (opts, st1) \<Rightarrow> Inr (Tuple s opts, st1))
            | _ \<Rightarrow> Inr (topic, st)) of
        Inl e \<Rightarrow> Raise e st
      | Inr (topic1, st1) \<Rightarrow>
          if topic1 \<notin> set (subscriptions st1)
          then Return (st1\<lparr>subscriptions := subscriptions st1 @ [topic1]\<rparr>)
          else Return st1)"

definition subscribe :: "transport \<Rightarrow> topic \<Rightarrow> int \<Rightarrow> state \<Rightarrow> outcome" where
  "subscribe tr topic qos st =
     (case (case topic of
              Str s \<Rightarrow>
                (case new_SubscribeOptions qos st of
                   Inl e \<Rightarrow> Inl e
                 | Inr (opts, st1) \<Rightarrow> Inr (Tuple s opts, st1))
            | Tuple f opts \<Rightarrow> Inr (topic, st)
            | Other n \<Rightarrow> Inl AssertionError) of
        Inl e \<Rightarrow> Raise e st
      | Inr (topic1, st1) \<Rightarrow>
          let result = subscribe_rc tr (length (calls st1)) topic1;
              st2 = st1\<lparr>calls := calls st1 @ [Subscribe topic1]\<rparr>;
              st3 = st2\<lparr>log := log st2 @
                      [if result = 4 then SubscribeFailed topic1 result
                       else Subscribed topic1]\<rparr>
          in add_subscription_topic topic1 qos st3)"

definition unsubscribe :: "filters \<Rightarrow> state \<Rightarrow> outcome" where
  "unsubscribe topic st = Return (st\<lparr>calls := calls st @ [Unsubscribe topic]\<rparr>)"

text \<open>
  \<open>restore_subscriptions\<close> is a \<open>for\<close> loop over the list that \<open>subscribe\<close>
  may append to while the loop runs: the loop goes by position and looks at the length
  of the list again before each step, as Python's list iterator does.
\<close>

lemma subscribe_Tuple:
  "subscribe tr (Tuple f opts) qos st =
     (let st3 = st\<lparr>calls := calls st @ [Subscribe (Tuple f opts)],
                   log := log st @
                     [if subscribe_rc tr (length (calls st)) (Tuple f opts) = 4
                      then SubscribeFailed (Tuple f opts)
                             (subscribe_rc tr (length (calls st)) (Tuple f opts))
                      else Subscribed (Tuple f opts)]\<rparr>
      in if Tuple f opts \<in> set (subscriptions st) then Return st3
         else Return (st3\<lparr>subscriptions := subscriptions st @ [Tuple f opts]\<rparr>))"
  by (simp add: subscribe_def add_subscription_topic_def Let_def)

lemma subscribe_Str:
  "qos \<in> {0, 1, 2} \<Longrightarrow>
   subscribe tr (Str f) qos st =
     (let t = Tuple f (SubscribeOptions (next_oid st) qos);
          st3 = st\<lparr>next_oid := Suc (next_oid st),
                   calls := calls st @ [Subscribe t],
                   log := log st @
                     [if subscribe_rc tr (length (calls st)) t = 4
                      then SubscribeFailed t (subscribe_rc tr (length (calls st)) t)
                      else Subscribed t]\<rparr>
      in if t \<in> set (subscriptions st) then Return st3
         else Return (st3\<lparr>subscriptions := subscriptions st @ [t]\<rparr>))"
  by (simp add: subscribe_def add_subscription_topic_def new_SubscribeOptions_def Let_def)

lemma subscribe_Other: "subscribe tr (Other n) qos st = Raise AssertionError st"
  by (simp add: subscribe_def)

fun weight :: "topic \<Rightarrow> nat" where
  "weight (Str f) = 2"
| "weight t = 1"

definition pending :: "nat \<Rightarrow> state \<Rightarrow> nat" where
  "pending i st = sum_list (map weight (drop i (subscriptions st)))"

lemma pending_step:
  assumes i: "i < length (subscriptions st)"
    and r: "subscribe tr (subscriptions st ! i) 0 st = Return s"
  shows "pending (Suc i) s < pending i st"
proof -
  let ?subs = "subscriptions st"
  have split: "drop i ?subs = ?subs ! i # drop (Suc i) ?subs"
    using i by (simp add: Cons_nth_drop_Suc)
  show ?thesis
  proof (cases "?subs ! i")
    case (Str f)
    let ?t = "Tuple f (SubscribeOptions (next_oid st) 0)"
    have "subscriptions s = ?subs \<or> subscriptions s = ?subs @ [?t]"
      using r Str by (auto simp: subscribe_Str Let_def split: if_splits)
    then have "pending (Suc i) s \<le> sum_list (map weight (drop (Suc i) ?subs)) + 1"
      using i by (auto simp: pending_def)
    then show ?thesis using split Str by (simp add: pending_def)
  next
    case (Tuple f opts)
    then have "Tuple f opts \<in> set ?subs" using i by (metis nth_mem)
    then have "subscriptions s = ?subs"
      using r Tuple by (auto simp: subscribe_Tuple Let_def)
    then show ?thesis using split Tuple by (simp add: pending_def)
  next
    case (Other n)
    then show ?thesis using r by (simp add: subscribe_Other)
  qed
qed

function restore_from :: "transport \<Rightarrow> nat \<Rightarrow> state \<Rightarrow> outcome" where
  "restore_from tr i st =
     (if i < length (subscriptions st)
      then (case subscribe tr (subscriptions st ! i) 0 st of
              Raise e s \<Rightarrow> Raise e s
            | Return s \<Rightarrow> restore_from tr (Suc i) s)
      else Return st)"
  by pat_completeness auto
termination
  by (relation "measure (\<lambda>(tr, i, st). pending i st)") (auto simp: pending_step)

definition restore_subscriptions :: "transport \<Rightarrow> state \<Rightarrow> outcome" where
  "restore_subscriptions tr st = restore_from tr 0 st"

definition on_connect :: "transport \<Rightarrow> state \<Rightarrow> outcome" where
  "on_connect tr st =
     restore_subscriptions tr (st\<lparr>log := log st @ [Connected (hostname st) (port st)]\<rparr>)"

section \<open>Connection\<close>

text \<open>
  The \<open>while\<close> loop of \<open>ensure_connection\<close>, entered with the local counter
  \<open>reconnects\<close>. Only \<open>ConnectionRefusedError\<close> is caught; any other exception
  of \<open>reconnect()\<close> leaves the loop, and so does the \<open>ValueError\<close> that
  \<open>time.sleep\<close> raises on a negative duration. The loop may run forever: no result
  is \<open>None\<close>.
\<close>

partial_function (option) reconnect_loop :: "transport \<Rightarrow> int \<Rightarrow> state \<Rightarrow> outcome option" where
  "reconnect_loop tr reconnects st =
     (if connected st then Some (Return st)
      else
        let k = attempts st;
            st1 = st\<lparr>calls := calls st @ [Reconnect], attempts := Suc k\<rparr>
        in if reconnect_result tr k = Fails then Some (Raise OSError st1)
           else
             let st2 = (if reconnect_result tr k = Refused
                        then st1\<lparr>log := log st1 @ [ReconnectFailed (hostname st1) (port st1)]\<rparr>
                        else st1);
                 reconnects1 = reconnects + 1;
                 st3 = st2\<lparr>log := log st2 @ [RetryAttempt reconnects1 (timeout st2)]\<rparr>
             in if timeout st3 < 0 then Some (Raise ValueError st3)
                else reconnect_loop tr reconnects1
                       (st3\<lparr>calls := calls st3 @ [Sleep (timeout st3)],
                            connected := connected_after tr k\<rparr>))"

definition ensure_connection :: "transport \<Rightarrow> state \<Rightarrow> outcome option" where
  "ensure_connection tr st =
     (if connected st then Some (Return st) else reconnect_loop tr 1 st)"

definition publish ::
  "transport \<Rightarrow> string \<Rightarrow> byte list \<Rightarrow> int \<Rightarrow> bool \<Rightarrow> state \<Rightarrow> outcome option" where
  "publish tr topic payload qos retain st =
     (case ensure_connection tr st of
        None \<Rightarrow> None
      | Some (Raise e s) \<Rightarrow> Some (Raise e s)
      | Some (Return s) \<Rightarrow>
          Some (Return (s\<lparr>calls := calls s @ [Publish topic payload qos retain]\<rparr>)))"

text \<open>
  Names for the statements about the loop: the state a call leaves behind, the state one
  pass of the loop later (the attempt, its log lines and the sleep), the log lines of
  the \<open>k\<close>-th pass, and a change applied to the state of an outcome.
\<close>

fun state_of :: "outcome \<Rightarrow> state" where
  "state_of (Return s) = s"
| "state_of (Raise e s) = s"

definition attempted :: "transport \<Rightarrow> int \<Rightarrow> state \<Rightarrow> state" where
  "attempted tr r st =
     st\<lparr>calls := calls st @ [Reconnect, Sleep (timeout st)],
        attempts := Suc (attempts st),
        log := log st @
          (if reconnect_result tr (attempts st) = Refused
           then [ReconnectFailed (hostname st) (port st)] else []) @
          [RetryAttempt (r + 1) (timeout st)],
        connected := connected_after tr (attempts st)\<rparr>"

definition retry_records :: "transport \<Rightarrow> state \<Rightarrow> int \<Rightarrow> nat \<Rightarrow> log_record list" where
  "retry_records tr st r k =
     (if reconnect_result tr (attempts st + k) = Refused
      then [ReconnectFailed (hostname st) (port st)] else []) @
     [RetryAttempt (r + 1 + int k) (timeout st)]"

fun map_state :: "(state \<Rightarrow> state) \<Rightarrow> outcome \<Rightarrow> outcome" where
  "map_state f (Return s) = Return (f s)"
| "map_state f (Raise e s) = Raise e (f s)"

section \<open>Callbacks\<close>

text \<open>The label values of a node's counters, each rendered by \<open>str\<close>.\<close>

definition labels_of :: "state \<Rightarrow> labels" where
  "labels_of st =
     (node_id st, (case name st of None \<Rightarrow> ''None'' | Some n \<Rightarrow> n), node_type st, hostname st)"

definition inc :: "(labels \<Rightarrow> nat) \<Rightarrow> labels \<Rightarrow> nat \<Rightarrow> (labels \<Rightarrow> nat)" where
  "inc counter l amount = counter(l := counter l + amount)"

record message =
  msg_topic :: string
  msg_payload :: "byte list"
  msg_qos :: int

definition on_message :: "message \<Rightarrow> state \<Rightarrow> outcome" where
  "on_message m st =
     (let st1 = st\<lparr>node_messages_received_count :=
                    inc (node_messages_received_count st) (labels_of st) 1\<rparr>;
          st2 = st1\<lparr>node_bytes_received_count :=
                    inc (node_bytes_received_count st1) (labels_of st1) (length (msg_payload m))\<rparr>
      in case decode (msg_payload m) of
           None \<Rightarrow> Raise UnicodeDecodeError st2
         | Some text \<Rightarrow>
             Return (st2\<lparr>log := log st2 @
               [Received (msg_topic m) (shorten_data (PyStr text) 75) (msg_qos m)]\<rparr>))"

definition on_publish :: "nat \<Rightarrow> state \<Rightarrow> outcome" where
  "on_publish mid st =
     Return (st\<lparr>node_messages_sent_count :=
                  inc (node_messages_sent_count st) (labels_of st) 1,
                log := log st @ [Published mid]\<rparr>)"

section \<open>A node and three brokers for the examples\<close>

text \<open>
  The node that \<open>MQTTNode(config1, node_id="n1")\<close> makes in a fresh process, a broker
  that refuses the first \<open>n\<close> connections and accepts the next, one that refuses all of
  them, and one whose \<open>reconnect()\<close> fails with another error. None of them has a
  session, so every subscribe call returns result code 4.
\<close>

definition config1 :: MQTTBrokerConfig where
  "config1 = \<lparr>username = ''user'', password = ''secret'', cfg_keepalive = 60,
     cfg_hostname = ''broker'', cfg_port = 1883, cfg_timeout = 2,
     cfg_reconnect_attempts = 1\<rparr>"

definition node1 :: state where
  "node1 = \<lparr>ids = 0, next_oid = 0, log = [],
     node_bytes_received_count = (\<lambda>l. 0), node_bytes_sent_count = (\<lambda>l. 0),
     node_messages_received_count = (\<lambda>l. 0), node_messages_sent_count = (\<lambda>l. 0),
     name = None, node_id = ''n1'', node_type = ''MQTTNode'', client_id = ''n1'',
     subscriptions = [], hostname = ''broker'', port = 1883, keepalive = 60, timeout = 2,
     reconnect_attempts = 1, connected = False, calls = [], attempts = 0\<rparr>"

definition refusing :: "nat \<Rightarrow> transport" where
  "refusing n = \<lparr>subscribe_rc = (\<lambda>k t. 4),
     reconnect_result = (\<lambda>k. if k < n then Refused else Returns),
     connected_after = (\<lambda>k. n \<le> k)\<rparr>"

definition unreachable :: transport where
  "unreachable = \<lparr>subscribe_rc = (\<lambda>k t. 4), reconnect_result = (\<lambda>k. Refused),
     connected_after = (\<lambda>k. False)\<rparr>"

definition broken :: transport where
  "broken = \<lparr>subscribe_rc = (\<lambda>k t. 4), reconnect_result = (\<lambda>k. Fails),
     connected_after = (\<lambda>k. False)\<rparr>"

section \<open>Properties of \<open>shorten_data\<close>\<close>

lemma dropWhile_unchanged: "xs = [] \<or> \<not> P (hd xs) \<Longrightarrow> dropWhile P xs = xs"
  by (cases xs) auto

lemma strip_head: "strip s = [] \<or> \<not> isspace (hd (strip s))"
proof -
  let ?d = "dropWhile isspace s"
  let ?t = "dropWhile isspace (rev ?d)"
  show ?thesis
  proof (cases "?t = []")
    case True
    then show ?thesis by (simp add: strip_def)
  next
    case False
    have d_ne: "?d \<noteq> []"
    proof
      assume "?d = []"
      then have "?t = []" by (simp only: rev.simps dropWhile.simps)
      with False show False by contradiction
    qed
    have "rev ?d = takeWhile isspace (rev ?d) @ ?t" by simp
    then have "rev (rev ?d) = rev (takeWhile isspace (rev ?d) @ ?t)" by (rule arg_cong)
    then have "?d = rev ?t @ rev (takeWhile isspace (rev ?d))"
      by (simp only: rev_rev_ident rev_append)
    then have "hd ?d = hd (rev ?t @ rev (takeWhile isspace (rev ?d)))" by (rule arg_cong)
    then have "hd ?d = hd (rev ?t)" using False by simp
    moreover have "\<not> isspace (hd ?d)" using d_ne by (rule hd_dropWhile)
    ultimately show ?thesis by (simp add: strip_def)
  qed
qed

lemma strip_strip: "strip (strip s) = strip s"
proof -
  let ?t = "dropWhile isspace (rev (dropWhile isspace s))"
  have "dropWhile isspace (strip s) = strip s"
    using strip_head [of s] by (rule dropWhile_unchanged)
  then have "strip (strip s) = rev (dropWhile isspace (rev (rev ?t)))"
    by (simp add: strip_def)
  also have "\<dots> = rev ?t" by simp
  finally show ?thesis by (simp add: strip_def)
qed

lemma strip_replicate: "\<not> isspace c \<Longrightarrow> strip (replicate n c) = replicate n c"
  by (cases n) (simp_all add: strip_def replicate_append_same)

lemma strip_space_replicate:
  "\<not> isspace c \<Longrightarrow> strip (32 # replicate n c) = replicate n c"
proof -
  assume c: "\<not> isspace c"
  have "isspace 32" by (simp add: isspace_def)
  then have "strip (32 # replicate n c) = strip (replicate n c)"
    by (simp add: strip_def)
  with c show ?thesis by (simp add: strip_replicate)
qed

lemma shorten_data_fits:
  "length (strip s) \<le> 75 \<Longrightarrow> shorten_data (PyStr s) 75 = strip s"
  by (simp add: shorten_data_def)

lemma shorten_data_cut:
  "75 < length (strip s) \<Longrightarrow> shorten_data (PyStr s) 75 = take 75 (strip s) @ ellipsis"
  by (simp add: shorten_data_def slice_to_def)

lemma length_strip: "length (strip s) \<le> length s"
proof -
  have "length (strip s) = length (dropWhile isspace (rev (dropWhile isspace s)))"
    by (simp add: strip_def)
  also have "\<dots> \<le> length (rev (dropWhile isspace s))"
    by (rule length_dropWhile_le)
  also have "\<dots> = length (dropWhile isspace s)"
    by simp
  also have "\<dots> \<le> length s"
    by (rule length_dropWhile_le)
  finally show ?thesis .
qed

text \<open>
  C9, as amended. \<open>shorten_data\<close> strips surrounding whitespace before it measures.
  On every string of at most 75 characters it is idempotent. On every string whose
  stripped form is longer than 75 characters it returns the first 75 characters of the
  stripped string followed by the three-character marker, 78 characters in all.
\<close>

theorem shorten_data_stripped:
  "(length s \<le> 75 \<longrightarrow>
      shorten_data (PyStr (shorten_data (PyStr s) 75)) 75 = shorten_data (PyStr s) 75) \<and>
   (75 < length (strip s) \<longrightarrow>
      shorten_data (PyStr s) 75 = take 75 (strip s) @ [46, 46, 46] \<and>
      length (shorten_data (PyStr s) 75) = 78)"
proof (intro conjI impI)
  assume "length s \<le> 75"
  with length_strip [of s] have fits: "length (strip s) \<le> 75" by simp
  then have "length (strip (strip s)) \<le> 75" by (simp add: strip_strip)
  then have "shorten_data (PyStr (strip s)) 75 = strip (strip s)"
    by (rule shorten_data_fits)
  then show "shorten_data (PyStr (shorten_data (PyStr s) 75)) 75 = shorten_data (PyStr s) 75"
    using fits by (simp add: shorten_data_fits strip_strip)
next
  assume "75 < length (strip s)"
  then show "shorten_data (PyStr s) 75 = take 75 (strip s) @ [46, 46, 46]"
    by (simp add: shorten_data_cut ellipsis_def)
next
  assume "75 < length (strip s)"
  then show "length (shorten_data (PyStr s) 75) = 78"
    by (simp add: shorten_data_cut ellipsis_def)
qed

theorem shorten_data_stripped_witness:
  "length [32, 104, 105, 32 :: nat] \<le> 75 \<and>
   shorten_data (PyStr (shorten_data (PyStr [32, 104, 105, 32]) 75)) 75 = [104, 105] \<and>
   75 < length (strip (replicate 80 97)) \<and>
   shorten_data (PyStr (replicate 80 97)) 75 = replicate 75 97 @ [46, 46, 46] \<and>
   length (shorten_data (PyStr (replicate 80 97)) 75) = 78"
proof -
  have a: "\<not> isspace 97" by (simp add: isspace_def)
  have short: "shorten_data (PyStr [32, 104, 105, 32]) 75 = [104, 105]"
    by (simp add: shorten_data_def strip_def isspace_def)
  have long: "strip (replicate 80 97) = replicate 80 97"
    using a by (rule strip_replicate)
  show ?thesis
    using shorten_data_stripped [of "[32, 104, 105, 32]"]
      shorten_data_stripped [of "replicate 80 97"]
    by (simp add: short long)
qed

text \<open>
  C9 as stated fails: a string of 76 characters, one space followed by 75 letters, is
  longer than 75 characters, yet it comes back as the 75 letters alone, without the
  marker and 75 characters long.
\<close>

theorem shorten_data_long_counterexample:
  "75 < length (32 # replicate 75 (97 :: nat)) \<and>
   shorten_data (PyStr (32 # replicate 75 97)) 75 = replicate 75 97 \<and>
   shorten_data (PyStr (32 # replicate 75 97)) 75
     \<noteq> take 75 (32 # replicate 75 97) @ [46, 46, 46] \<and>
   length (shorten_data (PyStr (32 # replicate 75 97)) 75) \<noteq> 78"
proof -
  have a: "\<not> isspace 97" by (simp add: isspace_def)
  have s: "strip (32 # replicate 75 97) = replicate 75 97"
    using a by (rule strip_space_replicate)
  have r: "shorten_data (PyStr (32 # replicate 75 97)) 75 = replicate 75 97"
    by (simp add: shorten_data_def s)
  have "length (replicate 75 (97 :: nat)) \<noteq> length (take 75 (32 # replicate 75 97) @ [46, 46, 46 :: nat])"
    by simp
  then have "replicate 75 (97 :: nat) \<noteq> take 75 (32 # replicate 75 97) @ [46, 46, 46]"
    by (rule contrapos_nn) (erule arg_cong)
  then show ?thesis by (simp add: r)
qed

section \<open>Replay of the registry\<close>

lemma restore_from_tuples:
  assumes "\<forall>t\<in>set (subscriptions st). is_tuple t"
  shows "\<exists>st'. restore_from tr i st = Return st' \<and>
           st' = st\<lparr>calls := calls st', log := log st'\<rparr> \<and>
           calls st' = calls st @ map Subscribe (drop i (subscriptions st))"
  using assms
proof (induction tr i st rule: restore_from.induct)
  case (1 tr i st)
  show ?case
  proof (cases "i < length (subscriptions st)")
    case False
    then show ?thesis by (simp add: restore_from.simps [of tr i st])
  next
    case True
    then have mem: "subscriptions st ! i \<in> set (subscriptions st)" by simp
    with "1.prems" have "is_tuple (subscriptions st ! i)" by blast
    then obtain f opts where t: "subscriptions st ! i = Tuple f opts"
      by (cases "subscriptions st ! i") auto
    define s where "s = st\<lparr>calls := calls st @ [Subscribe (Tuple f opts)],
                   log := log st @
                     [if subscribe_rc tr (length (calls st)) (Tuple f opts) = 4
                      then SubscribeFailed (Tuple f opts)
                             (subscribe_rc tr (length (calls st)) (Tuple f opts))
                      else Subscribed (Tuple f opts)]\<rparr>"
    have sub: "subscribe tr (subscriptions st ! i) 0 st = Return s"
      using mem t by (simp add: subscribe_Tuple s_def)
    have same: "subscriptions s = subscriptions st" by (simp add: s_def)
    with "1.prems" have "\<forall>t\<in>set (subscriptions s). is_tuple t" by simp
    from "1.IH" [OF True sub this] obtain st' where
      r: "restore_from tr (Suc i) s = Return st'" and
      frame: "st' = s\<lparr>calls := calls st', log := log st'\<rparr>" and
      c: "calls st' = calls s @ map Subscribe (drop (Suc i) (subscriptions s))"
      by blast
    have "restore_from tr i st = Return st'"
      using True sub r by (simp add: restore_from.simps [of tr i st])
    moreover have "st' = st\<lparr>calls := calls st', log := log st'\<rparr>"
      using frame by (simp add: s_def)
    moreover have "calls st' = calls st @ map Subscribe (drop i (subscriptions st))"
      using c same t True by (simp add: s_def Cons_nth_drop_Suc [symmetric])
    ultimately show ?thesis by blast
  qed
qed

lemma subscribe_step:
  assumes "subscribable t"
  shows "\<exists>s t1. subscribe tr t 0 st = Return s \<and> calls s = calls st @ [Subscribe t1] \<and>
           (is_tuple t \<longrightarrow> t1 = t) \<and> is_tuple t1 \<and>
           (subscriptions s = subscriptions st \<or> subscriptions s = subscriptions st @ [t1])"
proof (cases t)
  case (Str f)
  then show ?thesis by (simp add: subscribe_Str Let_def)
next
  case (Tuple f opts)
  then show ?thesis by (simp add: subscribe_Tuple Let_def)
next
  case (Other n)
  with assms show ?thesis by simp
qed

lemma restore_from_covers:
  assumes "\<forall>t\<in>set (subscriptions st). subscribable t"
  shows "\<exists>st' new. restore_from tr i st = Return st' \<and> calls st' = calls st @ new \<and>
           (\<forall>t\<in>set (drop i (subscriptions st)). is_tuple t \<longrightarrow> Subscribe t \<in> set new)"
  using assms
proof (induction tr i st rule: restore_from.induct)
  case (1 tr i st)
  show ?case
  proof (cases "i < length (subscriptions st)")
    case False
    then show ?thesis by (simp add: restore_from.simps [of tr i st])
  next
    case True
    let ?t = "subscriptions st ! i"
    from True have mem: "?t \<in> set (subscriptions st)" by simp
    with "1.prems" have "subscribable ?t" by blast
    from subscribe_step [OF this, of tr st] obtain s t1 where
      sub: "subscribe tr ?t 0 st = Return s" and
      cs: "calls s = calls st @ [Subscribe t1]" and
      same: "is_tuple ?t \<longrightarrow> t1 = ?t" and
      t1: "is_tuple t1" and
      subs: "subscriptions s = subscriptions st \<or> subscriptions s = subscriptions st @ [t1]"
      by blast
    have ok: "\<forall>t\<in>set (subscriptions s). subscribable t"
      using subs "1.prems" t1 by (cases t1) auto
    from "1.IH" [OF True sub ok] obtain st' new where
      r: "restore_from tr (Suc i) s = Return st'" and
      c: "calls st' = calls s @ new" and
      cov: "\<forall>t\<in>set (drop (Suc i) (subscriptions s)). is_tuple t \<longrightarrow> Subscribe t \<in> set new"
      by blast
    have r': "restore_from tr i st = Return st'"
      using True sub r by (simp add: restore_from.simps [of tr i st])
    have c': "calls st' = calls st @ (Subscribe t1 # new)"
      using c cs by simp
    have sub_drop: "set (drop (Suc i) (subscriptions st)) \<subseteq> set (drop (Suc i) (subscriptions s))"
      using subs True by auto
    have "\<forall>t\<in>set (drop i (subscriptions st)). is_tuple t \<longrightarrow> Subscribe t \<in> set (Subscribe t1 # new)"
    proof (intro ballI impI)
      fix t assume t: "t \<in> set (drop i (subscriptions st))" and tup: "is_tuple t"
      from True have "drop i (subscriptions st) = ?t # drop (Suc i) (subscriptions st)"
        by (simp add: Cons_nth_drop_Suc)
      with t have "t = ?t \<or> t \<in> set (drop (Suc i) (subscriptions st))" by simp
      then show "Subscribe t \<in> set (Subscribe t1 # new)"
      proof
        assume "t = ?t"
        with tup same show ?thesis by simp
      next
        assume "t \<in> set (drop (Suc i) (subscriptions st))"
        with sub_drop cov tup show ?thesis by auto
      qed
    qed
    with r' c' show ?thesis by blast
  qed
qed

lemma node1_init: "init MQTTNode config1 None ''n1'' None None process0 = Created node1"
  by (simp add: init_def config1_def node1_def process0_def MQTTNode_def)


lemma on_connect_tuples:
  assumes "\<forall>t\<in>set (subscriptions st). is_tuple t"
  shows "\<exists>st'. on_connect tr st = Return st' \<and>
           calls st' = calls st @ map Subscribe (subscriptions st) \<and>
           subscriptions st' = subscriptions st"
proof -
  let ?s = "st\<lparr>log := log st @ [Connected (hostname st) (port st)]\<rparr>"
  have "\<forall>t\<in>set (subscriptions ?s). is_tuple t" using assms by simp
  from restore_from_tuples [OF this, of tr 0] obtain st' where
    r: "restore_from tr 0 ?s = Return st'" and
    f: "st' = ?s\<lparr>calls := calls st', log := log st'\<rparr>" and
    c: "calls st' = calls ?s @ map Subscribe (drop 0 (subscriptions ?s))"
    by blast
  have "subscriptions st' = subscriptions (?s\<lparr>calls := calls st', log := log st'\<rparr>)"
    using f by simp
  then have "subscriptions st' = subscriptions st" by simp
  with r c show ?thesis by (simp add: on_connect_def restore_subscriptions_def)
qed

lemma on_connect_covers:
  assumes "\<forall>t\<in>set (subscriptions st). subscribable t"
  shows "\<exists>st' new. on_connect tr st = Return st' \<and> calls st' = calls st @ new \<and>
           (\<forall>t\<in>set (subscriptions st). is_tuple t \<longrightarrow> Subscribe t \<in> set new)"
proof -
  let ?s = "st\<lparr>log := log st @ [Connected (hostname st) (port st)]\<rparr>"
  have "\<forall>t\<in>set (subscriptions ?s). subscribable t" using assms by simp
  from restore_from_covers [OF this, of tr 0] show ?thesis
    by (simp add: on_connect_def restore_subscriptions_def)
qed

text \<open>
  C1. The handler replays once, and when every entry of the registry is a tuple the
  replay is one subscribe call for each, in order (\<open>on_connect_tuples\<close>). A registry
  handed to the constructor as a list of strings breaks this: for
  \<open>MQTTNode(cfg, node_id="n1", subscriptions=["a"])\<close> the replay makes two subscribe
  calls for the one entry, because \<open>subscribe\<close> appends the tuple it builds to the list
  the loop is walking, and the registry has two entries afterwards.
\<close>

theorem replay_of_str_entry:
  "\<exists>st0 st'.
     init MQTTNode cfg None ''n1'' None (Some [Str ''a'']) process0 = Created st0 \<and>
     subscriptions st0 = [Str ''a''] \<and>
     on_connect tr st0 = Return st' \<and>
     calls st' = [Subscribe (Tuple ''a'' (SubscribeOptions 0 0)),
                 Subscribe (Tuple ''a'' (SubscribeOptions 0 0))] \<and>
     subscriptions st' = [Str ''a'', Tuple ''a'' (SubscribeOptions 0 0)]"
  by (simp add: init_def process0_def on_connect_def restore_subscriptions_def
      restore_from.simps subscribe_Str subscribe_Tuple Let_def)

section \<open>The registry\<close>

lemma add_subscription_topic_Str:
  assumes "qos \<in> {0, 1, 2}"
    and "Tuple f (SubscribeOptions (next_oid st) qos) \<notin> set (subscriptions st)"
  shows "add_subscription_topic (Str f) qos st =
           Return (st\<lparr>next_oid := Suc (next_oid st),
                      subscriptions := subscriptions st @
                        [Tuple f (SubscribeOptions (next_oid st) qos)]\<rparr>)"
  using assms by (simp add: add_subscription_topic_def new_SubscribeOptions_def)

lemma add_subscription_topic_present:
  assumes "Tuple f opts \<in> set (subscriptions st)"
  shows "add_subscription_topic (Tuple f opts) qos st = Return st"
  using assms by (simp add: add_subscription_topic_def)

text \<open>
  C2. The registry is not a set keyed by the filter. After
  \<open>add_subscription_topic("a", 0)\<close> a second call with the same filter adds a second
  entry, with QoS 1 and with QoS 0 alike: the membership test compares the whole tuple,
  whose second component is a new \<open>SubscribeOptions\<close> object each time. Only a
  tuple that is itself in the registry is left out (\<open>add_subscription_topic_present\<close>),
  which is what keeps the replay from growing the registry.
\<close>

theorem add_subscription_topic_same_filter:
  "\<exists>st0 st1 st2 st3.
     init MQTTNode cfg None ''n1'' None None process0 = Created st0 \<and>
     subscriptions st0 = [] \<and>
     add_subscription_topic (Str ''a'') 0 st0 = Return st1 \<and>
     add_subscription_topic (Str ''a'') 1 st1 = Return st2 \<and>
     subscriptions st2 =
       [Tuple ''a'' (SubscribeOptions 0 0), Tuple ''a'' (SubscribeOptions 1 1)] \<and>
     add_subscription_topic (Str ''a'') 0 st1 = Return st3 \<and>
     subscriptions st3 =
       [Tuple ''a'' (SubscribeOptions 0 0), Tuple ''a'' (SubscribeOptions 1 0)]"
  by (simp add: init_def process0_def add_subscription_topic_def new_SubscribeOptions_def)

text \<open>
  C6. \<open>unsubscribe\<close> passes the request to the transport and leaves the registry as
  it was. So when the registry holds an entry for the filter (and holds only strings and
  tuples, so that the replay runs through), the replay after the next connection
  subscribes to that entry again.
\<close>

theorem unsubscribe_keeps_registry:
  "(\<exists>s. unsubscribe topic st = Return s \<and>
        calls s = calls st @ [Unsubscribe topic] \<and>
        subscriptions s = subscriptions st) \<and>
   ((\<forall>t\<in>set (subscriptions st). subscribable t) \<and> Tuple f opts \<in> set (subscriptions st) \<longrightarrow>
      (\<exists>s st' new. unsubscribe (Filter f) st = Return s \<and>
         on_connect tr s = Return st' \<and> calls st' = calls s @ new \<and>
         Subscribe (Tuple f opts) \<in> set new))"
proof (intro conjI impI)
  show "\<exists>s. unsubscribe topic st = Return s \<and>
        calls s = calls st @ [Unsubscribe topic] \<and>
        subscriptions s = subscriptions st"
    by (simp add: unsubscribe_def)
next
  assume a: "(\<forall>t\<in>set (subscriptions st). subscribable t) \<and> Tuple f opts \<in> set (subscriptions st)"
  let ?s = "st\<lparr>calls := calls st @ [Unsubscribe (Filter f)]\<rparr>"
  have "\<forall>t\<in>set (subscriptions ?s). subscribable t" using a by simp
  from on_connect_covers [OF this, of tr] obtain st' new where
    r: "on_connect tr ?s = Return st'" and c: "calls st' = calls ?s @ new" and
    cov: "\<forall>t\<in>set (subscriptions ?s). is_tuple t \<longrightarrow> Subscribe t \<in> set new"
    by blast
  from a have "Tuple f opts \<in> set (subscriptions ?s)" by simp
  with cov have "Subscribe (Tuple f opts) \<in> set new" by fastforce
  with r c show "\<exists>s st' new. unsubscribe (Filter f) st = Return s \<and>
         on_connect tr s = Return st' \<and> calls st' = calls s @ new \<and>
         Subscribe (Tuple f opts) \<in> set new"
    unfolding unsubscribe_def by blast
qed

theorem unsubscribe_keeps_registry_witness:
  "Tuple ''a'' (SubscribeOptions 0 0) \<in>
     set (subscriptions (node1\<lparr>next_oid := 1,
                               subscriptions := [Tuple ''a'' (SubscribeOptions 0 0)]\<rparr>)) \<and>
   (\<exists>s st' new.
      unsubscribe (Filter ''a'')
        (node1\<lparr>next_oid := 1, subscriptions := [Tuple ''a'' (SubscribeOptions 0 0)]\<rparr>) =
        Return s \<and>
      subscriptions s = [Tuple ''a'' (SubscribeOptions 0 0)] \<and>
      on_connect (refusing 0) s = Return st' \<and> calls st' = calls s @ new \<and>
      Subscribe (Tuple ''a'' (SubscribeOptions 0 0)) \<in> set new)"
proof -
  let ?st = "node1\<lparr>next_oid := 1, subscriptions := [Tuple ''a'' (SubscribeOptions 0 0)]\<rparr>"
  have m: "Tuple ''a'' (SubscribeOptions 0 0) \<in> set (subscriptions ?st)" by simp
  have ok: "\<forall>t\<in>set (subscriptions ?st). subscribable t" by simp
  from unsubscribe_keeps_registry
         [of "Filter ''a''" ?st "''a''" "SubscribeOptions 0 0" "refusing 0"] ok m
  obtain s st' new where
    "unsubscribe (Filter ''a'') ?st = Return s"
    "on_connect (refusing 0) s = Return st'" "calls st' = calls s @ new"
    "Subscribe (Tuple ''a'' (SubscribeOptions 0 0)) \<in> set new"
    by blast
  moreover from this(1) have "subscriptions s = [Tuple ''a'' (SubscribeOptions 0 0)]"
    by (auto simp: unsubscribe_def)
  ultimately show ?thesis using m by blast
qed

text \<open>
  C10. \<open>subscribe\<close> on a string registers the topic whatever the transport answers.
  Given a valid QoS, the tuple it builds is appended to the registry after the log line,
  which is the failure line exactly when the result code is 4; and (the registry
  holding only strings and tuples) the replay after the next connection subscribes to
  it again.
\<close>

theorem subscribe_registers_on_failure:
  assumes "qos \<in> {0, 1, 2}"
    and "Tuple f (SubscribeOptions (next_oid st) qos) \<notin> set (subscriptions st)"
    and "\<forall>t\<in>set (subscriptions st). subscribable t"
  shows "\<exists>s st' new.
           subscribe tr (Str f) qos st = Return s \<and>
           calls s = calls st @ [Subscribe (Tuple f (SubscribeOptions (next_oid st) qos))] \<and>
           log s = log st @
             [if subscribe_rc tr (length (calls st))
                   (Tuple f (SubscribeOptions (next_oid st) qos)) = 4
              then SubscribeFailed (Tuple f (SubscribeOptions (next_oid st) qos)) 4
              else Subscribed (Tuple f (SubscribeOptions (next_oid st) qos))] \<and>
           subscriptions s = subscriptions st @ [Tuple f (SubscribeOptions (next_oid st) qos)] \<and>
           on_connect tr' s = Return st' \<and> calls st' = calls s @ new \<and>
           Subscribe (Tuple f (SubscribeOptions (next_oid st) qos)) \<in> set new"
proof -
  let ?t = "Tuple f (SubscribeOptions (next_oid st) qos)"
  let ?s = "st\<lparr>next_oid := Suc (next_oid st), calls := calls st @ [Subscribe ?t],
               log := log st @
                 [if subscribe_rc tr (length (calls st)) ?t = 4
                  then SubscribeFailed ?t (subscribe_rc tr (length (calls st)) ?t)
                  else Subscribed ?t],
               subscriptions := subscriptions st @ [?t]\<rparr>"
  have sub: "subscribe tr (Str f) qos st = Return ?s"
    using assms(1,2) by (simp add: subscribe_Str Let_def)
  have "\<forall>t\<in>set (subscriptions ?s). subscribable t" using assms(3) by simp
  from on_connect_covers [OF this, of tr'] obtain st' new where
    r: "on_connect tr' ?s = Return st'" and c: "calls st' = calls ?s @ new" and
    cov: "\<forall>t\<in>set (subscriptions ?s). is_tuple t \<longrightarrow> Subscribe t \<in> set new"
    by blast
  have "?t \<in> set (subscriptions ?s)" by simp
  with cov have "Subscribe ?t \<in> set new" by fastforce
  with sub r c show ?thesis by auto
qed

theorem subscribe_registers_on_failure_witness:
  "(0::int) \<in> {0, 1, 2} \<and>
   subscribe_rc unreachable (length (calls node1)) (Tuple ''a'' (SubscribeOptions 0 0)) = 4 \<and>
   Tuple ''a'' (SubscribeOptions 0 0) \<notin> set (subscriptions node1) \<and>
   (\<exists>s st' new.
      subscribe unreachable (Str ''a'') 0 node1 = Return s \<and>
      calls s = [Subscribe (Tuple ''a'' (SubscribeOptions 0 0))] \<and>
      log s = [SubscribeFailed (Tuple ''a'' (SubscribeOptions 0 0)) 4] \<and>
      subscriptions s = [Tuple ''a'' (SubscribeOptions 0 0)] \<and>
      on_connect (refusing 0) s = Return st' \<and> calls st' = calls s @ new \<and>
      Subscribe (Tuple ''a'' (SubscribeOptions 0 0)) \<in> set new)"
proof -
  have n: "next_oid node1 = 0" "calls node1 = []" "log node1 = []" "subscriptions node1 = []"
    by (simp_all add: node1_def)
  have rc: "subscribe_rc unreachable (length (calls node1)) (Tuple ''a'' (SubscribeOptions 0 0)) = 4"
    by (simp add: unreachable_def)
  have q: "(0::int) \<in> {0, 1, 2}" by simp
  have fresh: "Tuple ''a'' (SubscribeOptions (next_oid node1) 0) \<notin> set (subscriptions node1)"
    by (simp add: n)
  have ok: "\<forall>t\<in>set (subscriptions node1). subscribable t" by (simp add: n)
  from subscribe_registers_on_failure [OF q fresh ok, of unreachable "refusing 0"]
  show ?thesis using rc by (simp add: n)
qed

section \<open>The reconnection loop\<close>

lemma reconnect_loop_connected:
  "connected st \<Longrightarrow> reconnect_loop tr r st = Some (Return st)"
  by (subst reconnect_loop.simps) simp

lemma reconnect_loop_step:
  assumes "\<not> connected st" and "reconnect_result tr (attempts st) \<noteq> Fails"
    and "0 \<le> timeout st"
  shows "reconnect_loop tr r st =
           reconnect_loop tr (r + 1)
             (st\<lparr>calls := calls st @ [Reconnect, Sleep (timeout st)],
                 attempts := Suc (attempts st),
                 log := log st @
                   (if reconnect_result tr (attempts st) = Refused
                    then [ReconnectFailed (hostname st) (port st)] else []) @
                   [RetryAttempt (r + 1) (timeout st)],
                 connected := connected_after tr (attempts st)\<rparr>)"
  using assms by (subst reconnect_loop.simps) (cases st, simp add: Let_def)

lemma reconnect_loop_returns:
  assumes "\<not> connected st" and "0 \<le> timeout st"
    and "\<forall>k<n. reconnect_result tr (attempts st + k) \<noteq> Fails \<and>
               \<not> connected_after tr (attempts st + k)"
    and "reconnect_result tr (attempts st + n) \<noteq> Fails"
    and "connected_after tr (attempts st + n)"
  shows "reconnect_loop tr r st =
           Some (Return (st\<lparr>calls := calls st @
                              concat (replicate (Suc n) [Reconnect, Sleep (timeout st)]),
                            attempts := attempts st + Suc n,
                            log := log st @ concat (map (retry_records tr st r) [0..<Suc n]),
                            connected := True\<rparr>))"
  using assms
proof (induction n arbitrary: st r)
  case 0
  then show ?case
    by (simp add: reconnect_loop_step reconnect_loop_connected retry_records_def)
next
  case (Suc n)
  let ?s = "st\<lparr>calls := calls st @ [Reconnect, Sleep (timeout st)],
                 attempts := Suc (attempts st),
                 log := log st @
                   (if reconnect_result tr (attempts st) = Refused
                    then [ReconnectFailed (hostname st) (port st)] else []) @
                   [RetryAttempt (r + 1) (timeout st)],
                 connected := connected_after tr (attempts st)\<rparr>"
  from Suc.prems(3) have first: "reconnect_result tr (attempts st) \<noteq> Fails"
    "\<not> connected_after tr (attempts st)"
    by (metis add.right_neutral zero_less_Suc)+
  have step: "reconnect_loop tr r st = reconnect_loop tr (r + 1) ?s"
    using Suc.prems(1) first(1) Suc.prems(2) by (rule reconnect_loop_step)
  have h1: "\<not> connected ?s" using first(2) by simp
  have h2: "0 \<le> timeout ?s" using Suc.prems(2) by simp
  have h3: "\<forall>k<n. reconnect_result tr (attempts ?s + k) \<noteq> Fails \<and>
               \<not> connected_after tr (attempts ?s + k)"
  proof (intro allI impI)
    fix k assume "k < n"
    then have "Suc k < Suc n" by simp
    with Suc.prems(3) have "reconnect_result tr (attempts st + Suc k) \<noteq> Fails \<and>
               \<not> connected_after tr (attempts st + Suc k)" by blast
    then show "reconnect_result tr (attempts ?s + k) \<noteq> Fails \<and>
               \<not> connected_after tr (attempts ?s + k)" by simp
  qed
  have h4: "reconnect_result tr (attempts ?s + n) \<noteq> Fails"
    using Suc.prems(4) by simp
  have h5: "connected_after tr (attempts ?s + n)"
    using Suc.prems(5) by simp
  have recs: "map (retry_records tr st r) [0..<Suc (Suc n)] =
      retry_records tr st r 0 # map (retry_records tr ?s (r + 1)) [0..<Suc n]"
  proof -
    have "\<And>k. retry_records tr st r (Suc k) = retry_records tr ?s (r + 1) k"
      by (simp add: retry_records_def)
    then show ?thesis by (simp only: map_upt_Suc [of _ "Suc n"])
  qed
  show ?case
    unfolding step Suc.IH [OF h1 h2 h3 h4 h5] recs
    by (cases st) (simp add: retry_records_def)
qed



lemma loop_body:
  "(if connected st then Some (Return st)
      else
        let k = attempts st;
            st1 = st\<lparr>calls := calls st @ [Reconnect], attempts := Suc k\<rparr>
        in if reconnect_result tr k = Fails then Some (Raise OSError st1)
           else
             let st2 = (if reconnect_result tr k = Refused
                        then st1\<lparr>log := log st1 @ [ReconnectFailed (hostname st1) (port st1)]\<rparr>
                        else st1);
                 reconnects1 = reconnects + 1;
                 st3 = st2\<lparr>log := log st2 @ [RetryAttempt reconnects1 (timeout st2)]\<rparr>
             in if timeout st3 < 0 then Some (Raise ValueError st3)
                else loop tr reconnects1
                       (st3\<lparr>calls := calls st3 @ [Sleep (timeout st3)],
                            connected := connected_after tr k\<rparr>)) =
   (if connected st then Some (Return st)
    else if reconnect_result tr (attempts st) = Fails
      then Some (Raise OSError (st\<lparr>calls := calls st @ [Reconnect], attempts := Suc (attempts st)\<rparr>))
    else if timeout st < 0
      then Some (Raise ValueError
             (st\<lparr>calls := calls st @ [Reconnect], attempts := Suc (attempts st),
                 log := log st @
                   (if reconnect_result tr (attempts st) = Refused
                    then [ReconnectFailed (hostname st) (port st)] else []) @
                   [RetryAttempt (reconnects + 1) (timeout st)]\<rparr>))
    else loop tr (reconnects + 1) (attempted tr reconnects st))"
  by (cases st) (simp add: Let_def attempted_def)

lemma reconnect_loop_frame:
  assumes "reconnect_loop tr r st = Some out"
  shows "(\<exists>pre lg n c. state_of out =
            st\<lparr>calls := calls st @ pre, log := log st @ lg, attempts := n, connected := c\<rparr> \<and>
            set pre \<subseteq> {Reconnect, Sleep (timeout st)}) \<and>
         (\<forall>s. out = Return s \<longrightarrow> connected s)"
  using assms
proof (induct tr r st out rule: reconnect_loop.raw_induct [rotated 1, consumes 1, case_names step])
  case (step loop tr r st out)
  note IH = step(1)
  note body = step(2) [unfolded loop_body]
  let ?P = "\<lambda>st out. (\<exists>pre lg n c. state_of out =
            st\<lparr>calls := calls st @ pre, log := log st @ lg, attempts := n, connected := c\<rparr> \<and>
            set pre \<subseteq> {Reconnect, Sleep (timeout st)})"
  consider (up) "connected st"
    | (fails) "\<not> connected st" "reconnect_result tr (attempts st) = Fails"
    | (neg) "\<not> connected st" "reconnect_result tr (attempts st) \<noteq> Fails" "timeout st < 0"
    | (again) "\<not> connected st" "reconnect_result tr (attempts st) \<noteq> Fails" "\<not> timeout st < 0"
    by blast
  then show ?case
  proof cases
    case up
    with body have out: "out = Return st" by simp
    have "state_of out = st\<lparr>calls := calls st @ [], log := log st @ [],
            attempts := attempts st, connected := connected st\<rparr>"
      by (simp add: out)
    moreover have "set [] \<subseteq> {Reconnect, Sleep (timeout st)}" by simp
    ultimately have "?P st out" by blast
    with up out show ?thesis by simp
  next
    case fails
    with body have out: "out = Raise OSError (st\<lparr>calls := calls st @ [Reconnect], attempts := Suc (attempts st)\<rparr>)"
      by simp
    have "state_of out = st\<lparr>calls := calls st @ [Reconnect], log := log st @ [],
            attempts := Suc (attempts st), connected := connected st\<rparr>"
      by (cases st) (simp add: out)
    moreover have "set [Reconnect] \<subseteq> {Reconnect, Sleep (timeout st)}" by simp
    ultimately have "?P st out" by blast
    with out show ?thesis by simp
  next
    case neg
    let ?lg = "(if reconnect_result tr (attempts st) = Refused
                    then [ReconnectFailed (hostname st) (port st)] else []) @
                   [RetryAttempt (r + 1) (timeout st)]"
    from neg body have out: "out = Raise ValueError
             (st\<lparr>calls := calls st @ [Reconnect], attempts := Suc (attempts st),
                 log := log st @ ?lg\<rparr>)"
      by simp
    have "state_of out = st\<lparr>calls := calls st @ [Reconnect], log := log st @ ?lg,
            attempts := Suc (attempts st), connected := connected st\<rparr>"
      by (cases st) (simp add: out)
    moreover have "set [Reconnect] \<subseteq> {Reconnect, Sleep (timeout st)}" by simp
    ultimately have "?P st out" by blast
    with out show ?thesis by simp
  next
    case again
    with body have rec: "loop tr (r + 1) (attempted tr r st) = Some out" by simp
    from IH [OF rec] obtain pre lg n c where
      so: "state_of out = (attempted tr r st)\<lparr>calls := calls (attempted tr r st) @ pre,
             log := log (attempted tr r st) @ lg, attempts := n, connected := c\<rparr>" and
      pre: "set pre \<subseteq> {Reconnect, Sleep (timeout (attempted tr r st))}" and
      ret: "\<forall>s. out = Return s \<longrightarrow> connected s"
      by blast
    let ?lg = "(if reconnect_result tr (attempts st) = Refused
                    then [ReconnectFailed (hostname st) (port st)] else []) @
                   [RetryAttempt (r + 1) (timeout st)]"
    have "state_of out = st\<lparr>calls := calls st @ ([Reconnect, Sleep (timeout st)] @ pre),
            log := log st @ (?lg @ lg), attempts := n, connected := c\<rparr>"
      unfolding so by (cases st) (simp add: attempted_def)
    moreover have "set ([Reconnect, Sleep (timeout st)] @ pre) \<subseteq> {Reconnect, Sleep (timeout st)}"
      using pre by (simp add: attempted_def)
    ultimately have "?P st out" by blast
    with ret show ?thesis by simp
  qed
qed

lemma reconnect_loop_never:
  assumes "reconnect_loop tr r st = Some out"
  shows "(\<forall>k. reconnect_result tr k \<noteq> Fails \<and> \<not> connected_after tr k) \<longrightarrow>
         0 \<le> timeout st \<longrightarrow> connected st"
  using assms
proof (induct tr r st out rule: reconnect_loop.raw_induct [rotated 1, consumes 1, case_names step])
  case (step loop tr r st out)
  note IH = step(1)
  note body = step(2) [unfolded loop_body]
  show ?case
  proof (intro impI, rule ccontr)
    assume never: "\<forall>k. reconnect_result tr k \<noteq> Fails \<and> \<not> connected_after tr k"
      and t: "0 \<le> timeout st" and down: "\<not> connected st"
    from never have nf: "reconnect_result tr (attempts st) \<noteq> Fails"
      and nc: "\<not> connected_after tr (attempts st)" by simp_all
    from body down nf t have rec: "loop tr (r + 1) (attempted tr r st) = Some out" by simp
    from IH [OF rec] never t have "connected (attempted tr r st)"
      by (simp add: attempted_def)
    with nc show False by (simp add: attempted_def)
  qed
qed

lemma loop_body_alt:
  "reconnect_loop tr r st =
   (if connected st then Some (Return st)
    else if reconnect_result tr (attempts st) = Fails
      then Some (Raise OSError (st\<lparr>calls := calls st @ [Reconnect], attempts := Suc (attempts st)\<rparr>))
    else if timeout st < 0
      then Some (Raise ValueError
             (st\<lparr>calls := calls st @ [Reconnect], attempts := Suc (attempts st),
                 log := log st @
                   (if reconnect_result tr (attempts st) = Refused
                    then [ReconnectFailed (hostname st) (port st)] else []) @
                   [RetryAttempt (r + 1) (timeout st)]\<rparr>))
    else reconnect_loop tr (r + 1) (attempted tr r st))"
  by (subst reconnect_loop.simps) (rule loop_body)

lemma reconnect_loop_ignores_Some:
  assumes "reconnect_loop tr r st = Some out"
  shows "reconnect_loop tr r (st\<lparr>reconnect_attempts := m\<rparr>) =
           Some (map_state (\<lambda>s. s\<lparr>reconnect_attempts := m\<rparr>) out)"
  using assms
proof (induct tr r st out rule: reconnect_loop.raw_induct [rotated 1, consumes 1, case_names step])
  case (step loop tr r st out)
  note IH = step(1)
  note body = step(2) [unfolded loop_body]
  let ?st = "st\<lparr>reconnect_attempts := m\<rparr>"
  have comm: "attempted tr r ?st = (attempted tr r st)\<lparr>reconnect_attempts := m\<rparr>"
    by (cases st) (simp add: attempted_def)
  consider (up) "connected st"
    | (fails) "\<not> connected st" "reconnect_result tr (attempts st) = Fails"
    | (neg) "\<not> connected st" "reconnect_result tr (attempts st) \<noteq> Fails" "timeout st < 0"
    | (again) "\<not> connected st" "reconnect_result tr (attempts st) \<noteq> Fails" "\<not> timeout st < 0"
    by blast
  then show ?case
  proof cases
    case up
    with body have "out = Return st" by simp
    with up show ?thesis by (subst loop_body_alt) simp
  next
    case fails
    with body have "out = Raise OSError (st\<lparr>calls := calls st @ [Reconnect], attempts := Suc (attempts st)\<rparr>)"
      by simp
    with fails show ?thesis by (subst loop_body_alt) (cases st, simp)
  next
    case neg
    with body have "out = Raise ValueError
             (st\<lparr>calls := calls st @ [Reconnect], attempts := Suc (attempts st),
                 log := log st @
                   (if reconnect_result tr (attempts st) = Refused
                    then [ReconnectFailed (hostname st) (port st)] else []) @
                   [RetryAttempt (r + 1) (timeout st)]\<rparr>)"
      by simp
    with neg show ?thesis by (subst loop_body_alt) (cases st, simp)
  next
    case again
    with body have rec: "loop tr (r + 1) (attempted tr r st) = Some out" by simp
    have "reconnect_loop tr r ?st = reconnect_loop tr (r + 1) (attempted tr r ?st)"
      using again by (subst loop_body_alt) simp
    also have "\<dots> = Some (map_state (\<lambda>s. s\<lparr>reconnect_attempts := m\<rparr>) out)"
      unfolding comm by (rule IH [OF rec])
    finally show ?thesis .
  qed
qed

lemma reconnect_loop_ignores:
  "reconnect_loop tr r (st\<lparr>reconnect_attempts := m\<rparr>) =
     map_option (map_state (\<lambda>s. s\<lparr>reconnect_attempts := m\<rparr>)) (reconnect_loop tr r st)"
proof (cases "reconnect_loop tr r st")
  case (Some out)
  then show ?thesis by (simp add: reconnect_loop_ignores_Some)
next
  case None
  have "reconnect_loop tr r (st\<lparr>reconnect_attempts := m\<rparr>) = None"
  proof (rule ccontr)
    assume "reconnect_loop tr r (st\<lparr>reconnect_attempts := m\<rparr>) \<noteq> None"
    then obtain out where "reconnect_loop tr r (st\<lparr>reconnect_attempts := m\<rparr>) = Some out"
      by blast
    from reconnect_loop_ignores_Some [OF this, of "reconnect_attempts st"]
    have "reconnect_loop tr r st \<noteq> None" by simp
    with None show False by contradiction
  qed
  with None show ?thesis by simp
qed


text \<open>
  C3. Entered while disconnected, \<open>ensure_connection\<close> keeps trying. With a
  non-negative timeout and a transport whose \<open>reconnect()\<close> either returns or raises
  \<open>ConnectionRefusedError\<close>: if the connection is still down after each of the first
  \<open>n\<close> attempts and up after the next, the call returns after exactly \<open>n + 1\<close>
  attempts, each followed by a sleep of \<open>timeout\<close> seconds, with an error line in the
  log for every refused attempt; if the connection never comes up, the call never
  returns. Changing \<open>reconnect_attempts\<close> changes nothing but that field of the result.
\<close>

theorem ensure_connection_retries:
  "(\<not> connected st \<and> 0 \<le> timeout st \<and>
    (\<forall>k<n. reconnect_result tr (attempts st + k) \<noteq> Fails \<and>
            \<not> connected_after tr (attempts st + k)) \<and>
    reconnect_result tr (attempts st + n) \<noteq> Fails \<and> connected_after tr (attempts st + n) \<longrightarrow>
    ensure_connection tr st =
      Some (Return (st\<lparr>calls := calls st @
                         concat (replicate (Suc n) [Reconnect, Sleep (timeout st)]),
                       attempts := attempts st + Suc n,
                       log := log st @ concat (map (retry_records tr st 1) [0..<Suc n]),
                       connected := True\<rparr>))) \<and>
   (\<not> connected st \<and> 0 \<le> timeout st \<and>
    (\<forall>k. reconnect_result tr k \<noteq> Fails \<and> \<not> connected_after tr k) \<longrightarrow>
    ensure_connection tr st = None) \<and>
   ensure_connection tr (st\<lparr>reconnect_attempts := m\<rparr>) =
     map_option (map_state (\<lambda>s. s\<lparr>reconnect_attempts := m\<rparr>)) (ensure_connection tr st)"
proof (intro conjI impI)
  assume "\<not> connected st \<and> 0 \<le> timeout st \<and>
    (\<forall>k<n. reconnect_result tr (attempts st + k) \<noteq> Fails \<and>
            \<not> connected_after tr (attempts st + k)) \<and>
    reconnect_result tr (attempts st + n) \<noteq> Fails \<and> connected_after tr (attempts st + n)"
  then show "ensure_connection tr st =
      Some (Return (st\<lparr>calls := calls st @
                         concat (replicate (Suc n) [Reconnect, Sleep (timeout st)]),
                       attempts := attempts st + Suc n,
                       log := log st @ concat (map (retry_records tr st 1) [0..<Suc n]),
                       connected := True\<rparr>))"
    unfolding ensure_connection_def using reconnect_loop_returns [of st n tr 1] by simp
next
  assume a: "\<not> connected st \<and> 0 \<le> timeout st \<and>
    (\<forall>k. reconnect_result tr k \<noteq> Fails \<and> \<not> connected_after tr k)"
  show "ensure_connection tr st = None"
  proof (cases "reconnect_loop tr 1 st")
    case None
    with a show ?thesis by (simp add: ensure_connection_def)
  next
    case (Some out)
    from reconnect_loop_never [OF this] a show ?thesis by simp
  qed
next
  show "ensure_connection tr (st\<lparr>reconnect_attempts := m\<rparr>) =
     map_option (map_state (\<lambda>s. s\<lparr>reconnect_attempts := m\<rparr>)) (ensure_connection tr st)"
    by (simp add: ensure_connection_def reconnect_loop_ignores)
qed

theorem ensure_connection_retries_witness:
  "\<not> connected node1 \<and> 0 \<le> timeout node1 \<and> reconnect_attempts node1 = 1 \<and>
   ensure_connection (refusing 2) node1 =
     Some (Return (node1\<lparr>calls := [Reconnect, Sleep 2, Reconnect, Sleep 2, Reconnect, Sleep 2],
                        attempts := 3,
                        log := [ReconnectFailed ''broker'' 1883, RetryAttempt 2 2,
                                ReconnectFailed ''broker'' 1883, RetryAttempt 3 2,
                                RetryAttempt 4 2],
                        connected := True\<rparr>)) \<and>
   ensure_connection unreachable node1 = None \<and>
   ensure_connection (refusing 2) (node1\<lparr>reconnect_attempts := 0\<rparr>) =
     map_option (map_state (\<lambda>s. s\<lparr>reconnect_attempts := 0\<rparr>))
       (ensure_connection (refusing 2) node1)"
proof -
  have r: "concat (map (retry_records (refusing 2) node1 1) [0..<3]) =
     [ReconnectFailed ''broker'' 1883, RetryAttempt 2 2,
      ReconnectFailed ''broker'' 1883, RetryAttempt 3 2, RetryAttempt 4 2]"
    by (simp add: retry_records_def refusing_def node1_def upt_rec)
  have c: "concat (replicate 3 [Reconnect, Sleep 2]) =
      [Reconnect, Sleep 2, Reconnect, Sleep 2, Reconnect, Sleep 2]"
    by (simp add: numeral_3_eq_3)
  have h: "\<forall>k<2. reconnect_result (refusing 2) (attempts node1 + k) \<noteq> Fails \<and>
            \<not> connected_after (refusing 2) (attempts node1 + k)"
    by (simp add: refusing_def node1_def)
  have t: "timeout node1 = 2" "calls node1 = []" "log node1 = []" "attempts node1 = 0"
    "\<not> connected node1" "reconnect_attempts node1 = 1"
    by (simp_all add: node1_def)
  have a: "ensure_connection (refusing 2) node1 =
      Some (Return (node1\<lparr>calls := calls node1 @
                         concat (replicate (Suc 2) [Reconnect, Sleep (timeout node1)]),
                       attempts := attempts node1 + Suc 2,
                       log := log node1 @ concat (map (retry_records (refusing 2) node1 1) [0..<Suc 2]),
                       connected := True\<rparr>))"
    using ensure_connection_retries [of node1 2 "refusing 2" 0] h
    by (simp add: t refusing_def)
  have b: "ensure_connection unreachable node1 = None"
    using ensure_connection_retries [of node1 2 unreachable 0]
    by (simp add: t unreachable_def)
  have d: "ensure_connection (refusing 2) (node1\<lparr>reconnect_attempts := 0\<rparr>) =
     map_option (map_state (\<lambda>s. s\<lparr>reconnect_attempts := 0\<rparr>))
       (ensure_connection (refusing 2) node1)"
    using ensure_connection_retries [of node1 2 "refusing 2" 0] by blast
  show ?thesis
    unfolding d using a b by (simp add: t r c)
qed

text \<open>
  C4. Called while the transport reports a connection, \<open>ensure_connection\<close> returns at
  once and the state is the one it was given: no call, no sleep, no log line.
\<close>

theorem ensure_connection_connected:
  "connected st \<Longrightarrow> ensure_connection tr st = Some (Return st)"
  by (simp add: ensure_connection_def)

theorem ensure_connection_connected_witness:
  "connected (node1\<lparr>connected := True\<rparr>) \<and>
   ensure_connection unreachable (node1\<lparr>connected := True\<rparr>) =
     Some (Return (node1\<lparr>connected := True\<rparr>))"
  using ensure_connection_connected [of "node1\<lparr>connected := True\<rparr>" unreachable]
  by simp

lemma ensure_connection_frame:
  assumes "ensure_connection tr st = Some out"
  shows "(\<exists>pre lg n c. state_of out =
            st\<lparr>calls := calls st @ pre, log := log st @ lg, attempts := n, connected := c\<rparr> \<and>
            set pre \<subseteq> {Reconnect, Sleep (timeout st)}) \<and>
         (\<forall>s. out = Return s \<longrightarrow> connected s)"
proof (cases "connected st")
  case True
  with assms have out: "out = Return st" by (simp add: ensure_connection_def)
  have "state_of out = st\<lparr>calls := calls st @ [], log := log st @ [],
            attempts := attempts st, connected := connected st\<rparr>"
    by (simp add: out)
  moreover have "set [] \<subseteq> {Reconnect, Sleep (timeout st)}" by simp
  ultimately have "\<exists>pre lg n c. state_of out =
            st\<lparr>calls := calls st @ pre, log := log st @ lg, attempts := n, connected := c\<rparr> \<and>
            set pre \<subseteq> {Reconnect, Sleep (timeout st)}" by blast
  with True out show ?thesis by simp
next
  case False
  with assms have "reconnect_loop tr 1 st = Some out" by (simp add: ensure_connection_def)
  then show ?thesis by (rule reconnect_loop_frame)
qed

text \<open>
  C5. \<open>publish\<close> runs \<open>ensure_connection\<close> first: when it returns, the publish call
  on the transport is the last call made, after the reconnect attempts and sleeps of
  \<open>ensure_connection\<close>, on a connected transport, and the sent-message counter is what
  it was; when \<open>ensure_connection\<close> raises, nothing is published. The counter moves in
  \<open>on_publish\<close> only, by one for the node's labels.
\<close>

theorem publish_ensures_then_delegates:
  "(publish tr topic payload qos retain st = Some (Return st') \<longrightarrow>
      (\<exists>s pre. ensure_connection tr st = Some (Return s) \<and> connected s \<and>
         calls s = calls st @ pre \<and> set pre \<subseteq> {Reconnect, Sleep (timeout st)} \<and>
         st' = s\<lparr>calls := calls s @ [Publish topic payload qos retain]\<rparr>) \<and>
      node_messages_sent_count st' = node_messages_sent_count st) \<and>
   (publish tr topic payload qos retain st = Some (Raise e s') \<longrightarrow>
      ensure_connection tr st = Some (Raise e s') \<and>
      (\<exists>pre. calls s' = calls st @ pre \<and> set pre \<subseteq> {Reconnect, Sleep (timeout st)}) \<and>
      node_messages_sent_count s' = node_messages_sent_count st) \<and>
   (connected st \<longrightarrow>
      publish tr topic payload qos retain st =
        Some (Return (st\<lparr>calls := calls st @ [Publish topic payload qos retain]\<rparr>))) \<and>
   on_publish mid st =
     Return (st\<lparr>node_messages_sent_count :=
                  (node_messages_sent_count st)
                    (labels_of st := node_messages_sent_count st (labels_of st) + 1),
                log := log st @ [Published mid]\<rparr>)"
proof (intro conjI impI)
  assume p: "publish tr topic payload qos retain st = Some (Return st')"
  then obtain s where e: "ensure_connection tr st = Some (Return s)"
    and st': "st' = s\<lparr>calls := calls s @ [Publish topic payload qos retain]\<rparr>"
    by (auto simp: publish_def split: option.splits outcome.splits)
  from ensure_connection_frame [OF e] obtain pre lg n c where
    f: "s = st\<lparr>calls := calls st @ pre, log := log st @ lg, attempts := n, connected := c\<rparr>"
    and pre: "set pre \<subseteq> {Reconnect, Sleep (timeout st)}" and up: "connected s"
    by auto
  have "calls s = calls (st\<lparr>calls := calls st @ pre, log := log st @ lg, attempts := n, connected := c\<rparr>)"
    using f by simp
  then have cs: "calls s = calls st @ pre" by simp
  from e up cs pre st'
  show "\<exists>s pre. ensure_connection tr st = Some (Return s) \<and> connected s \<and>
         calls s = calls st @ pre \<and> set pre \<subseteq> {Reconnect, Sleep (timeout st)} \<and>
         st' = s\<lparr>calls := calls s @ [Publish topic payload qos retain]\<rparr>"
    by blast
  have "node_messages_sent_count s =
     node_messages_sent_count (st\<lparr>calls := calls st @ pre, log := log st @ lg, attempts := n, connected := c\<rparr>)"
    using f by simp
  then show "node_messages_sent_count st' = node_messages_sent_count st"
    by (simp add: st')
next
  assume p: "publish tr topic payload qos retain st = Some (Raise e s')"
  then show e: "ensure_connection tr st = Some (Raise e s')"
    by (auto simp: publish_def split: option.splits outcome.splits)
  from ensure_connection_frame [OF e] obtain pre lg n c where
    f: "s' = st\<lparr>calls := calls st @ pre, log := log st @ lg, attempts := n, connected := c\<rparr>"
    and pre: "set pre \<subseteq> {Reconnect, Sleep (timeout st)}"
    by auto
  have "calls s' = calls (st\<lparr>calls := calls st @ pre, log := log st @ lg, attempts := n, connected := c\<rparr>)"
    using f by simp
  then have "calls s' = calls st @ pre" by simp
  with pre show "\<exists>pre. calls s' = calls st @ pre \<and> set pre \<subseteq> {Reconnect, Sleep (timeout st)}"
    by blast
  have "node_messages_sent_count s' =
     node_messages_sent_count (st\<lparr>calls := calls st @ pre, log := log st @ lg, attempts := n, connected := c\<rparr>)"
    using f by simp
  then show "node_messages_sent_count s' = node_messages_sent_count st" by simp
next
  assume "connected st"
  then show "publish tr topic payload qos retain st =
        Some (Return (st\<lparr>calls := calls st @ [Publish topic payload qos retain]\<rparr>))"
    by (simp add: publish_def ensure_connection_def)
next
  show "on_publish mid st =
     Return (st\<lparr>node_messages_sent_count :=
                  (node_messages_sent_count st)
                    (labels_of st := node_messages_sent_count st (labels_of st) + 1),
                log := log st @ [Published mid]\<rparr>)"
    by (simp add: on_publish_def inc_def)
qed

lemma ensure_connection_refusing1:
  "ensure_connection (refusing 1) node1 =
     Some (Return (node1\<lparr>calls := [Reconnect, Sleep 2, Reconnect, Sleep 2],
                       attempts := 2,
                       log := [ReconnectFailed ''broker'' 1883, RetryAttempt 2 2, RetryAttempt 3 2],
                       connected := True\<rparr>))"
proof -
  have t: "timeout node1 = 2" "calls node1 = []" "log node1 = []" "attempts node1 = 0"
    "\<not> connected node1"
    by (simp_all add: node1_def)
  have "reconnect_loop (refusing 1) 1 node1 =
      Some (Return (node1\<lparr>calls := calls node1 @
                         concat (replicate (Suc 1) [Reconnect, Sleep (timeout node1)]),
                       attempts := attempts node1 + Suc 1,
                       log := log node1 @ concat (map (retry_records (refusing 1) node1 1) [0..<Suc 1]),
                       connected := True\<rparr>))"
    by (rule reconnect_loop_returns) (simp_all add: t refusing_def)
  moreover have "concat (map (retry_records (refusing 1) node1 1) [0..<Suc 1]) =
     [ReconnectFailed ''broker'' 1883, RetryAttempt 2 2, RetryAttempt 3 2]"
    by (simp add: retry_records_def refusing_def node1_def upt_rec)
  ultimately show ?thesis
    by (simp add: ensure_connection_def t)
qed

lemma ensure_connection_broken:
  "ensure_connection broken node1 =
     Some (Raise OSError (node1\<lparr>calls := [Reconnect], attempts := 1\<rparr>))"
proof -
  have "reconnect_loop broken 1 node1 =
     Some (Raise OSError (node1\<lparr>calls := calls node1 @ [Reconnect],
                               attempts := Suc (attempts node1)\<rparr>))"
    by (subst loop_body_alt) (simp add: broken_def node1_def)
  then show ?thesis by (simp add: ensure_connection_def node1_def)
qed

theorem publish_ensures_then_delegates_witness:
  "publish (refusing 1) ''t'' [1] 0 False node1 =
     Some (Return (node1\<lparr>calls := [Reconnect, Sleep 2, Reconnect, Sleep 2,
                                  Publish ''t'' [1] 0 False],
                        attempts := 2,
                        log := [ReconnectFailed ''broker'' 1883, RetryAttempt 2 2,
                                RetryAttempt 3 2],
                        connected := True\<rparr>)) \<and>
   node_messages_sent_count
     (node1\<lparr>calls := [Reconnect, Sleep 2, Reconnect, Sleep 2, Publish ''t'' [1] 0 False],
            attempts := 2,
            log := [ReconnectFailed ''broker'' 1883, RetryAttempt 2 2, RetryAttempt 3 2],
            connected := True\<rparr>) = node_messages_sent_count node1 \<and>
   publish broken ''t'' [1] 0 False node1 =
     Some (Raise OSError (node1\<lparr>calls := [Reconnect], attempts := 1\<rparr>)) \<and>
   ensure_connection broken node1 =
     Some (Raise OSError (node1\<lparr>calls := [Reconnect], attempts := 1\<rparr>)) \<and>
   connected (node1\<lparr>connected := True\<rparr>) \<and>
   publish unreachable ''t'' [1] 0 False (node1\<lparr>connected := True\<rparr>) =
     Some (Return (node1\<lparr>connected := True, calls := [Publish ''t'' [1] 0 False]\<rparr>)) \<and>
   on_publish 7 node1 =
     Return (node1\<lparr>node_messages_sent_count := (\<lambda>l. 0)(labels_of node1 := 1),
                   log := [Published 7]\<rparr>)"
proof -
  let ?X = "node1\<lparr>calls := [Reconnect, Sleep 2, Reconnect, Sleep 2, Publish ''t'' [1] 0 False],
            attempts := 2,
            log := [ReconnectFailed ''broker'' 1883, RetryAttempt 2 2, RetryAttempt 3 2],
            connected := True\<rparr>"
  let ?Y = "node1\<lparr>calls := [Reconnect], attempts := 1\<rparr>"
  have p1: "publish (refusing 1) ''t'' [1] 0 False node1 = Some (Return ?X)"
    unfolding publish_def ensure_connection_refusing1 by simp
  have p2: "publish broken ''t'' [1] 0 False node1 = Some (Raise OSError ?Y)"
    unfolding publish_def ensure_connection_broken by simp
  have c: "connected (node1\<lparr>connected := True\<rparr>)" by simp
  have n: "node_messages_sent_count node1 = (\<lambda>l. 0)" "log node1 = []" "calls node1 = []"
    by (simp_all add: node1_def)
  from publish_ensures_then_delegates
         [of "refusing 1" "''t''" "[1]" 0 False node1 ?X OSError ?Y 7] p1
  have a1: "node_messages_sent_count ?X = node_messages_sent_count node1"
    and a4: "on_publish 7 node1 =
     Return (node1\<lparr>node_messages_sent_count :=
                  (node_messages_sent_count node1)
                    (labels_of node1 := node_messages_sent_count node1 (labels_of node1) + 1),
                log := log node1 @ [Published 7]\<rparr>)"
    by blast+
  from publish_ensures_then_delegates
         [of broken "''t''" "[1]" 0 False node1 ?X OSError ?Y 7] p2
  have a2: "ensure_connection broken node1 = Some (Raise OSError ?Y)"
    by blast
  from publish_ensures_then_delegates
         [of unreachable "''t''" "[1]" 0 False "node1\<lparr>connected := True\<rparr>" ?X OSError ?Y 7] c
  have a3: "publish unreachable ''t'' [1] 0 False (node1\<lparr>connected := True\<rparr>) =
     Some (Return (node1\<lparr>connected := True, calls := calls (node1\<lparr>connected := True\<rparr>) @ [Publish ''t'' [1] 0 False]\<rparr>))"
    by blast
  show ?thesis
    using p1 a1 p2 a2 c a3 a4 by (simp add: n)
qed


section \<open>Received messages\<close>

lemma on_message_counts:
  "\<exists>s. (on_message m st = Return s \<or> on_message m st = Raise UnicodeDecodeError s) \<and>
       node_messages_received_count s =
         (node_messages_received_count st)
           (labels_of st := node_messages_received_count st (labels_of st) + 1) \<and>
       node_bytes_received_count s =
         (node_bytes_received_count st)
           (labels_of st := node_bytes_received_count st (labels_of st) + length (msg_payload m))"
  by (cases "decode (msg_payload m)") (simp_all add: on_message_def Let_def inc_def labels_of_def)

lemma length_shorten_data: "length (shorten_data (PyStr s) 75) \<le> 78"
  by (simp add: shorten_data_def slice_to_def ellipsis_def Let_def)

lemma on_message_preview:
  assumes "decode (msg_payload m) = Some text"
  shows "\<exists>s. on_message m st = Return s \<and>
           log s = log st @ [Received (msg_topic m) (shorten_data (PyStr text) 75) (msg_qos m)]"
  using assms by (simp add: on_message_def Let_def)

text \<open>
  C7. The two counters move by one and by the length of the payload for every message
  (\<open>on_message_counts\<close>), and a payload that decodes is logged through
  \<open>shorten_data\<close> (\<open>on_message_preview\<close>). But the preview is built from
  \<open>message.payload.decode()\<close>: for a payload that is not UTF-8, here the single byte
  \<open>0xFF\<close>, the handler raises after it has counted the message, and logs nothing.
\<close>

theorem on_message_undecodable:
  "on_message \<lparr>msg_topic = ''t'', msg_payload = [0xFF], msg_qos = 0\<rparr> st =
     Raise UnicodeDecodeError
       (st\<lparr>node_messages_received_count :=
              (node_messages_received_count st)
                (labels_of st := node_messages_received_count st (labels_of st) + 1),
            node_bytes_received_count :=
              (node_bytes_received_count st)
                (labels_of st := node_bytes_received_count st (labels_of st) + 1)\<rparr>)"
  by (simp add: on_message_def Let_def inc_def labels_of_def)

section \<open>Node identifiers\<close>

lemma init_explicit_id:
  assumes "node_id0 \<noteq> []"
  shows "\<exists>st. init cls cfg nm node_id0 nt subs p = Created st \<and>
           node_id st = node_id0 \<and> ids st = ids p"
  using assms by (simp add: init_def)

lemma init_class_node_type:
  assumes "class_node_type cls = Some t"
  shows "\<exists>st. init cls cfg nm [] nt subs p = Created st \<and>
           node_id st = t @ ''_'' @ str_of_nat (ids p) \<and> ids st = Suc (ids p)"
  using assms by (simp add: init_def get_id_def)

lemma ids_process0: "ids process0 = 0"
  by (simp add: process0_def)

text \<open>
  C8. An identifier given by the caller is kept and the counter is left alone
  (\<open>init_explicit_id\<close>); the counter starts at zero (\<open>ids_process0\<close>); and a
  subclass that defines \<open>node_type\<close> as a class attribute gets that name, an underscore
  and the next number (\<open>init_class_node_type\<close>). For \<open>MQTTNode\<close> itself no identifier
  is generated: \<open>__init__\<close> calls \<open>_get_id\<close> before it assigns \<open>self.node_type\<close>,
  so construction without an identifier raises \<open>AttributeError\<close>, whatever node type
  the caller passes, and the counter is not advanced.
\<close>

theorem init_without_id:
  "init MQTTNode cfg nm [] nt subs p = InitRaise AttributeError p"
  by (simp add: init_def MQTTNode_def get_id_def)

end
